theory Spec2Isabelle
  imports Complex_Main
begin

section \<open>Palette generator\<close>

text \<open>
  \<^verbatim>\<open>DEFAULT_COLORWAY\<close> of \<^verbatim>\<open>widget.js\<close>: the ten colours of the Plotly colourway.
\<close>

definition DEFAULT_COLORWAY :: "string list" where
  "DEFAULT_COLORWAY =
     [''#1f77b4'', ''#ff7f0e'', ''#2ca02c'', ''#d62728'', ''#9467bd'',
      ''#8c564b'', ''#e377c2'', ''#7f7f7f'', ''#bcbd22'', ''#17becf'']"

text \<open>
  The \<^verbatim>\<open>for\<close> loop of \<^verbatim>\<open>buildPalette\<close>: \<open>index\<close> counts up from 0 while
  \<open>index < size\<close>, and each round pushes \<open>source[index % source.length]\<close>.
  The argument \<open>size\<close> (here \<open>sz\<close>) is a mathematical integer (a double is exact on
  the integers the loop can reach); \<open>index\<close> never leaves the naturals.
\<close>

function paletteLoop :: "string list \<Rightarrow> int \<Rightarrow> nat \<Rightarrow> string list \<Rightarrow> string list" where
  "paletteLoop source sz index palette =
     (if int index < sz
      then paletteLoop source sz (index + 1) (palette @ [source ! (index mod length source)])
      else palette)"
  by pat_completeness auto
termination
  by (relation "measure (\<lambda>(source, sz, index, palette). nat (sz - int index))") auto

declare paletteLoop.simps [simp del]

text \<open>
  \<^verbatim>\<open>buildPalette(size, overrideColors)\<close>. \<open>overrideColors\<close> is \<open>string[] | null\<close>:
  \<open>None\<close> is \<open>null\<close> (or a missing argument), for which \<open>Array.isArray\<close> is false.
\<close>

definition paletteSource :: "string list option \<Rightarrow> string list" where
  "paletteSource overrideColors =
     (case overrideColors of
        Some cs \<Rightarrow> if length cs > 0 then cs else DEFAULT_COLORWAY
      | None \<Rightarrow> DEFAULT_COLORWAY)"

definition buildPalette :: "int \<Rightarrow> string list option \<Rightarrow> string list" where
  "buildPalette sz overrideColors =
     (if sz \<le> 0 then []
      else paletteLoop (paletteSource overrideColors) sz 0 [])"

section \<open>Request URL builder\<close>

text \<open>
  The only exception the modelled code can meet is the \<open>TypeError\<close> of the platform
  (the \<open>URL\<close> constructor on an unparsable address, a conversion of a value that has
  no primitive form).
\<close>

datatype error = TypeError

text \<open>
  A \<open>URL\<close> object as far as \<^verbatim>\<open>buildRequestUrl\<close> touches it: the serialised scheme,
  authority and path (\<open>href_prefix\<close>), the query string without its question mark, the
  fragment, and the list of name-value pairs of its \<open>searchParams\<close> object.
\<close>

record url =
  href_prefix :: string
  query :: "string option"
  fragment :: "string option"
  searchParams :: "(string \<times> string) list"

text \<open>
  What the browser supplies and the repository does not contain: \<open>location.origin\<close> of
  the global object (\<open>None\<close> when \<open>global.location\<close> is missing), the \<open>URL\<close> constructor
  with its optional base argument (\<open>Inl TypeError\<close> when the address does not parse), and
  the \<open>application/x-www-form-urlencoded\<close> serialiser of a pair list. They are parameters
  of the model: every theorem about \<^verbatim>\<open>buildRequestUrl\<close> holds for every browser.
\<close>

record browser =
  location_origin :: "string option"
  URL_new :: "string \<Rightarrow> string option \<Rightarrow> error + url"
  urlencoded :: "(string \<times> string) list \<Rightarrow> string"

text \<open>
  The settings object after \<open>{ ...DEFAULT_OPTIONS, ...options }\<close>, with the field types
  the documentation of \<^verbatim>\<open>TMDWidget\<close> declares: lists of strings, and strings. \<open>None\<close>
  is \<open>null\<close> or \<open>undefined\<close>.
\<close>

record settings =
  questionSets :: "string list option"
  questions :: "string list option"
  chartType :: string
  dataScope :: "string option"
  endpoint :: "string option"
  colors :: "string list option"

definition DEFAULT_BASE_URL :: string where
  "DEFAULT_BASE_URL = ''https://tmd.elixir-europe.org/metrics''"

text \<open>\<open>URLSearchParams\<close>: \<open>has(name)\<close>, \<open>get(name)\<close> and \<open>set(name, value)\<close> on the pair list.
  \<open>set\<close> gives the first pair of that name the new value and removes the other pairs of
  that name; without such a pair it appends one.\<close>

definition sp_has :: "(string \<times> string) list \<Rightarrow> string \<Rightarrow> bool" where
  "sp_has l name = (name \<in> set (map fst l))"


fun sp_set :: "string \<Rightarrow> string \<Rightarrow> (string \<times> string) list \<Rightarrow> (string \<times> string) list" where
  "sp_set name v [] = [(name, v)]"
| "sp_set name v (p # ps) =
     (if fst p = name then (name, v) # filter (\<lambda>q. fst q \<noteq> name) ps
      else p # sp_set name v ps)"


text \<open>
  \<open>url.searchParams.set(name, value)\<close>: the list changes, and the update steps of the
  URL standard write its serialisation into the query of the URL (no query when the
  serialisation is empty).
\<close>

definition searchParams_set :: "browser \<Rightarrow> string \<Rightarrow> string \<Rightarrow> url \<Rightarrow> url" where
  "searchParams_set B name v u =
     (let l = sp_set name v (searchParams u); q = urlencoded B l
      in u\<lparr>searchParams := l, query := (if q = [] then None else Some q)\<rparr>)"

text \<open>\<open>url.toString()\<close>: the serialised URL.\<close>

definition url_toString :: "url \<Rightarrow> string" where
  "url_toString u =
     href_prefix u @ (case query u of None \<Rightarrow> [] | Some q \<Rightarrow> ''?'' @ q)
       @ (case fragment u of None \<Rightarrow> [] | Some f \<Rightarrow> ''#'' @ f)"

text \<open>\<open>Array.prototype.join\<close> on an array of strings, and \<open>String.prototype.startsWith\<close>.\<close>

fun join :: "string \<Rightarrow> string list \<Rightarrow> string" where
  "join sep [] = []"
| "join sep [x] = x"
| "join sep (x # y # ys) = x @ sep @ join sep (y # ys)"

definition startsWith :: "string \<Rightarrow> string \<Rightarrow> bool" where
  "startsWith s p = (take (length p) s = p)"

text \<open>\<open>Array.isArray(x) && x.length > 0\<close>, and the elements of the array.\<close>

definition hasItems :: "string list option \<Rightarrow> bool" where
  "hasItems x = (case x of Some xs \<Rightarrow> length xs > 0 | None \<Rightarrow> False)"

definition items :: "string list option \<Rightarrow> string list" where
  "items x = (case x of Some xs \<Rightarrow> xs | None \<Rightarrow> [])"

text \<open>\<open>settings.endpoint || DEFAULT_BASE_URL\<close>: the empty string is falsy.\<close>

definition requestBase :: "settings \<Rightarrow> string" where
  "requestBase s =
     (case endpoint s of
        Some e \<Rightarrow> if e \<noteq> [] then e else DEFAULT_BASE_URL
      | None \<Rightarrow> DEFAULT_BASE_URL)"

text \<open>The second argument of the constructor:
  \<open>base.startsWith('http') ? undefined : global.location?.origin\<close>.\<close>

definition requestOrigin :: "browser \<Rightarrow> settings \<Rightarrow> string option" where
  "requestOrigin B s =
     (if startsWith (requestBase s) ''http'' then None else location_origin B)"

text \<open>
  The two blocks of \<^verbatim>\<open>buildRequestUrl\<close> that write search parameters: the filter
  rule (\<open>questionSets\<close> before \<open>questions\<close>) and the data scope.
\<close>

definition filterStep :: "browser \<Rightarrow> settings \<Rightarrow> url \<Rightarrow> url" where
  "filterStep B s url =
     (let hasQuestionSets = hasItems (questionSets s);
          hasQuestions = hasItems (questions s)
      in if hasQuestionSets
         then searchParams_set B ''question_sets'' (join '','' (items (questionSets s))) url
         else if hasQuestions
         then searchParams_set B ''questions'' (join '','' (items (questions s))) url
         else url)"

definition scopeStep :: "browser \<Rightarrow> settings \<Rightarrow> url \<Rightarrow> url" where
  "scopeStep B s url =
     (case dataScope s of
        Some scope \<Rightarrow>
          if scope \<noteq> [] \<and> \<not> sp_has (searchParams url) ''data_scope''
          then searchParams_set B ''data_scope'' scope url
          else url
      | None \<Rightarrow> url)"

text \<open>
  \<^verbatim>\<open>buildRequestUrl(settings)\<close> up to its last line: \<open>Inl base\<close> is the return of the
  \<open>catch\<close> block, \<open>Inr url\<close> the URL object that the last line serialises.
\<close>

definition requestUrlObject :: "browser \<Rightarrow> settings \<Rightarrow> string + url" where
  "requestUrlObject B s =
     (let base = requestBase s in
      case URL_new B base (requestOrigin B s) of
        Inl err \<Rightarrow> Inl base
      | Inr url \<Rightarrow> Inr (scopeStep B s (filterStep B s url)))"

definition buildRequestUrl :: "browser \<Rightarrow> settings \<Rightarrow> string" where
  "buildRequestUrl B s =
     (case requestUrlObject B s of
        Inl base \<Rightarrow> base
      | Inr url \<Rightarrow> url_toString url)"

text \<open>
  A browser for evaluating the builder at concrete settings. Its serialiser is the one
  of the URL standard on byte strings: letters, digits and \<open>*-._\<close> stay, a space becomes
  \<open>+\<close>, every other byte is percent-encoded. Its constructor knows the addresses used
  in the examples, parsed as the standard parses them, and rejects every other string;
  \<open>'http://['\<close> is an address that no browser parses.
\<close>

definition hexDigit :: "nat \<Rightarrow> char" where
  "hexDigit n = ''0123456789ABCDEF'' ! n"

definition encodeByte :: "char \<Rightarrow> string" where
  "encodeByte c =
     (if c = CHR '' '' then ''+''
      else if c \<in> set ''abcdefghijklmnopqrstuvwxyzABCDEFGHIJKLMNOPQRSTUVWXYZ0123456789*-._'' then [c]
      else [CHR ''%'', hexDigit (of_char c div 16), hexDigit (of_char c mod 16)])"

definition formUrlencoded :: "(string \<times> string) list \<Rightarrow> string" where
  "formUrlencoded l =
     join ''&'' (map (\<lambda>(n, v). concat (map encodeByte n) @ ''='' @ concat (map encodeByte v)) l)"

definition exampleBrowser :: browser where
  "exampleBrowser =
     \<lparr> location_origin = Some ''https://example.org'',
       URL_new = (\<lambda>address base.
         if address = ''https://tmd.elixir-europe.org/metrics''
         then Inr \<lparr> href_prefix = ''https://tmd.elixir-europe.org/metrics'', query = None,
                    fragment = None, searchParams = [] \<rparr>
         else if address = ''https://tmd.example/api?data_scope=node&questions=q0''
         then Inr \<lparr> href_prefix = ''https://tmd.example/api'',
                    query = Some ''data_scope=node&questions=q0'', fragment = None,
                    searchParams = [(''data_scope'', ''node''), (''questions'', ''q0'')] \<rparr>
         else Inl TypeError),
       urlencoded = formUrlencoded \<rparr>"

text \<open>\<^verbatim>\<open>DEFAULT_OPTIONS\<close> of \<^verbatim>\<open>widget.js\<close>.\<close>

definition DEFAULT_OPTIONS :: settings where
  "DEFAULT_OPTIONS =
     \<lparr> questionSets = None, questions = None, chartType = ''pie'',
       dataScope = Some ''all'', endpoint = None, colors = None \<rparr>"

section \<open>Payload normaliser\<close>

text \<open>
  The payload is what \<open>response.json()\<close> returns: a JSON value. A number is a double:
  a finite one is named by the rational it equals (both zeros by 0), and JSON text can
  overflow to an infinity. An object is the list of its own properties, read by key.
  The result of reading a property is a \<open>json option\<close>, \<open>None\<close> for \<open>undefined\<close>.
\<close>

datatype jsnum = NaN | PosInf | NegInf | Fin rat

datatype json =
    JNull
  | JBool bool
  | JNum jsnum
  | JStr string
  | JArr "json list"
  | JObj "(string \<times> json) list"

text \<open>
  The two conversions of the language that depend on double arithmetic are parameters
  of the model: \<open>Number::toString\<close> on a finite number and \<open>StringToNumber\<close>. Every
  theorem about \<^verbatim>\<open>normalisePayload\<close> holds for every engine.
\<close>

record engine =
  finiteToString :: "rat \<Rightarrow> string"
  StringToNumber :: "string \<Rightarrow> jsnum"

text \<open>\<open>Number.isFinite\<close> on a number, and the truthiness of a value.\<close>

definition isFinite :: "jsnum \<Rightarrow> bool" where
  "isFinite n = (case n of Fin r \<Rightarrow> True | _ \<Rightarrow> False)"

fun truthy :: "json option \<Rightarrow> bool" where
  "truthy None = False"
| "truthy (Some JNull) = False"
| "truthy (Some (JBool b)) = b"
| "truthy (Some (JNum n)) = (n \<noteq> NaN \<and> n \<noteq> Fin 0)"
| "truthy (Some (JStr s)) = (s \<noteq> [])"
| "truthy (Some (JArr xs)) = True"
| "truthy (Some (JObj kvs)) = True"

text \<open>
  \<open>v?.name\<close> for the names the normaliser reads (\<open>values\<close>, \<open>id\<close>, \<open>options\<close>, \<open>label\<close>,
  \<open>title\<close>, \<open>count\<close>): an own property of an object, and \<open>undefined\<close> on every other
  value. None of the names is inherited, but for \<open>values\<close> on an array, which reads the
  method \<open>Array.prototype.values\<close>: the source hands that read to \<open>Array.isArray\<close> only,
  which is false for a function as it is for \<open>undefined\<close>.
\<close>

fun get :: "json option \<Rightarrow> string \<Rightarrow> json option" where
  "get (Some (JObj kvs)) name = map_of kvs name"
| "get v name = None"

text \<open>\<open>Array.isArray(x) ? x : []\<close>, \<open>a ?? b\<close> and \<open>a || b\<close>.\<close>

definition arrayOrEmpty :: "json option \<Rightarrow> json list" where
  "arrayOrEmpty x = (case x of Some (JArr xs) \<Rightarrow> xs | _ \<Rightarrow> [])"

definition nullish :: "json option \<Rightarrow> json option \<Rightarrow> json option" where
  "nullish a b = (if a = None \<or> a = Some JNull then b else a)"

definition orElse :: "json option \<Rightarrow> json option \<Rightarrow> json option" where
  "orElse a b = (if truthy a then a else b)"

text \<open>
  \<open>ToString\<close> of a JSON value. An array converts through \<open>join\<close>, where \<open>null\<close> elements
  give the empty string. An object converts through the inherited \<open>toString\<close> to
  \<open>[object Object]\<close>, unless it has an own property \<open>toString\<close>: a JSON value is not
  callable and \<open>valueOf\<close> returns the object, so the conversion raises \<open>TypeError\<close>.
\<close>

fun ToString :: "engine \<Rightarrow> json \<Rightarrow> error + string"
  and joinElements :: "engine \<Rightarrow> json list \<Rightarrow> error + string list" where
  "ToString E JNull = Inr ''null''"
| "ToString E (JBool b) = Inr (if b then ''true'' else ''false'')"
| "ToString E (JNum NaN) = Inr ''NaN''"
| "ToString E (JNum PosInf) = Inr ''Infinity''"
| "ToString E (JNum NegInf) = Inr ''-Infinity''"
| "ToString E (JNum (Fin r)) = Inr (finiteToString E r)"
| "ToString E (JStr s) = Inr s"
| "ToString E (JArr xs) =
     (case joinElements E xs of Inl e \<Rightarrow> Inl e | Inr ss \<Rightarrow> Inr (join '','' ss))"
| "ToString E (JObj kvs) =
     (if map_of kvs ''toString'' \<noteq> None then Inl TypeError else Inr ''[object Object]'')"
| "joinElements E [] = Inr []"
| "joinElements E (x # xs) =
     (case (if x = JNull then Inr [] else ToString E x) of
        Inl e \<Rightarrow> Inl e
      | Inr s \<Rightarrow> (case joinElements E xs of Inl e \<Rightarrow> Inl e | Inr ss \<Rightarrow> Inr (s # ss)))"

text \<open>
  \<open>Number(v)\<close>: an array or an object converts to its primitive first, which is the
  string above (or the \<open>TypeError\<close>). \<open>ToPropertyKey(v)\<close> is \<open>ToString\<close>.
\<close>

fun ToNumber :: "engine \<Rightarrow> json option \<Rightarrow> error + jsnum" where
  "ToNumber E None = Inr NaN"
| "ToNumber E (Some JNull) = Inr (Fin 0)"
| "ToNumber E (Some (JBool b)) = Inr (Fin (if b then 1 else 0))"
| "ToNumber E (Some (JNum n)) = Inr n"
| "ToNumber E (Some (JStr s)) = Inr (StringToNumber E s)"
| "ToNumber E (Some v) =
     (case ToString E v of Inl e \<Rightarrow> Inl e | Inr s \<Rightarrow> Inr (StringToNumber E s))"

fun ToPropertyKey :: "engine \<Rightarrow> json option \<Rightarrow> error + string" where
  "ToPropertyKey E None = Inr ''undefined''"
| "ToPropertyKey E (Some v) = ToString E v"

text \<open>
  The \<open>aggregated\<close> object: a plain object with number values, as the list of its own
  properties in the order of \<open>Object.keys\<close>. That order puts the keys that are array
  indices (canonical decimal integers below \<open>2^32 - 1\<close>) first, in ascending numeric
  order, and the other keys after them, in the order of their creation.
\<close>

definition isDigit :: "char \<Rightarrow> bool" where
  "isDigit c = (c \<in> set ''0123456789'')"

definition decimalValue :: "string \<Rightarrow> int" where
  "decimalValue s = foldl (\<lambda>n c. 10 * n + (of_char c - 48)) 0 s"

definition arrayIndex :: "string \<Rightarrow> int option" where
  "arrayIndex s =
     (if s \<noteq> [] \<and> list_all isDigit s \<and> (s = ''0'' \<or> take 1 s \<noteq> ''0'')
         \<and> decimalValue s < 4294967295
      then Some (decimalValue s) else None)"

fun insertIndexed :: "int \<Rightarrow> string \<times> 'v \<Rightarrow> (string \<times> 'v) list \<Rightarrow> (string \<times> 'v) list" where
  "insertIndexed n kv [] = [kv]"
| "insertIndexed n kv (p # ps) =
     (case arrayIndex (fst p) of
        Some m \<Rightarrow> if m < n then p # insertIndexed n kv ps else kv # p # ps
      | None \<Rightarrow> kv # p # ps)"

text \<open>
  \<open>obj[key] = v\<close> on such an object, \<open>v\<close> a number. An existing own property keeps its
  place; a new one goes where the order above puts it. The key \<open>__proto__\<close> is the
  inherited accessor of \<open>Object.prototype\<close>, whose setter ignores a value that is
  neither an object nor \<open>null\<close>: the assignment creates no property.
\<close>

definition objSet :: "(string \<times> 'v) list \<Rightarrow> string \<Rightarrow> 'v \<Rightarrow> (string \<times> 'v) list" where
  "objSet obj key v =
     (if key = ''__proto__'' then obj
      else if key \<in> set (map fst obj)
      then map (\<lambda>p. if fst p = key then (key, v) else p) obj
      else case arrayIndex key of
             Some n \<Rightarrow> insertIndexed n (key, v) obj
           | None \<Rightarrow> obj @ [(key, v)])"

definition Object_keys :: "(string \<times> 'v) list \<Rightarrow> string list" where
  "Object_keys obj = map fst obj"

text \<open>
  \<open>Array.prototype.reduce\<close> and \<open>Array.prototype.map\<close> with a callback that can raise:
  the first exception ends the call.
\<close>

fun reduceE :: "('a \<Rightarrow> 'b \<Rightarrow> error + 'a) \<Rightarrow> 'a \<Rightarrow> 'b list \<Rightarrow> error + 'a" where
  "reduceE f acc [] = Inr acc"
| "reduceE f acc (x # xs) =
     (case f acc x of Inl e \<Rightarrow> Inl e | Inr acc' \<Rightarrow> reduceE f acc' xs)"

fun mapE :: "('a \<Rightarrow> error + 'b) \<Rightarrow> 'a list \<Rightarrow> error + 'b list" where
  "mapE f [] = Inr []"
| "mapE f (x # xs) =
     (case f x of
        Inl e \<Rightarrow> Inl e
      | Inr y \<Rightarrow> (case mapE f xs of Inl e \<Rightarrow> Inl e | Inr ys \<Rightarrow> Inr (y # ys)))"

text \<open>The question record that \<^verbatim>\<open>normalisePayload\<close> builds for an entry.\<close>

record question =
  q_id :: "json option"
  q_label :: "json option"
  aggregated :: "(string \<times> jsnum) list"

text \<open>The filter callbacks \<open>(entry) => entry?.id\<close> and \<open>(option) => option?.id\<close>.\<close>

definition hasId :: "json \<Rightarrow> bool" where
  "hasId x = truthy (get (Some x) ''id'')"

text \<open>
  The body of the reducer. \<open>optionWrite\<close> is what it computes for one option, in the
  order of the source: the count \<open>Number(option?.count ?? 0)\<close>, then the key of
  \<open>map[optionLabel]\<close> and the number to store, the count when finite and 0 otherwise.
\<close>

definition optionWrite :: "engine \<Rightarrow> json \<Rightarrow> error + string \<times> jsnum" where
  "optionWrite E option =
     (let optionLabel = get (Some option) ''id'' in
      case ToNumber E (nullish (get (Some option) ''count'') (Some (JNum (Fin 0)))) of
        Inl e \<Rightarrow> Inl e
      | Inr count \<Rightarrow>
          (case ToPropertyKey E optionLabel of
             Inl e \<Rightarrow> Inl e
           | Inr key \<Rightarrow> Inr (key, if isFinite count then count else Fin 0)))"

definition reducer :: "engine \<Rightarrow> (string \<times> jsnum) list \<Rightarrow> json \<Rightarrow> error + (string \<times> jsnum) list" where
  "reducer E mp option =
     (case optionWrite E option of
        Inl e \<Rightarrow> Inl e
      | Inr (key, v) \<Rightarrow> Inr (objSet mp key v))"

text \<open>
  The entries that \<open>values.filter((entry) => entry?.id)\<close> keeps, and the options that
  \<open>options.filter((option) => option?.id)\<close> keeps for one entry.
\<close>

definition retainedEntries :: "json option \<Rightarrow> json list" where
  "retainedEntries payload =
     (let values = arrayOrEmpty (get payload ''values'') in filter hasId values)"

definition retainedOptions :: "json \<Rightarrow> json list" where
  "retainedOptions entry =
     (let options = arrayOrEmpty (get (Some entry) ''options'') in filter hasId options)"

text \<open>The callback of \<open>.map\<close>: one retained entry to its question record.\<close>

definition mapEntry :: "engine \<Rightarrow> json \<Rightarrow> error + question" where
  "mapEntry E entry =
     (let id' = get (Some entry) ''id'' in
      case reduceE (reducer E) [] (retainedOptions entry) of
        Inl e \<Rightarrow> Inl e
      | Inr agg \<Rightarrow>
          Inr \<lparr> q_id = id',
                q_label = orElse (orElse (get (Some entry) ''label'') (get (Some entry) ''title'')) id',
                aggregated = agg \<rparr>)"

text \<open>\<^verbatim>\<open>normalisePayload(payload)\<close>; \<open>None\<close> is an \<open>undefined\<close> payload.\<close>

definition normalisePayload :: "engine \<Rightarrow> json option \<Rightarrow> error + question list" where
  "normalisePayload E payload = mapE (mapEntry E) (retainedEntries payload)"

text \<open>
  An engine for evaluating the normaliser at concrete payloads whose option ids are
  strings and whose counts are numbers: on those no number is printed and no string is
  read as a number, so the two conversions are never applied.
\<close>

definition exampleEngine :: engine where
  "exampleEngine = \<lparr> finiteToString = (\<lambda>r. ''0''), StringToNumber = (\<lambda>s. NaN) \<rparr>"

text \<open>
  Notions the statements below use. \<open>firstSeen\<close> is the first-seen order of a list:
  each element once, at the place of its first occurrence. \<open>keyBefore a b\<close> is what
  the order of \<open>Object.keys\<close> allows for a key \<open>a\<close> that stands before a key \<open>b\<close>: an
  array index stands before every other key, and before an array index of the same or
  a larger value only. \<open>isNonNegInteger\<close> is a number that is an integer and not
  negative.
\<close>

fun firstSeenFrom :: "'a list \<Rightarrow> 'a list \<Rightarrow> 'a list" where
  "firstSeenFrom seen [] = seen"
| "firstSeenFrom seen (x # xs) =
     firstSeenFrom (if x \<in> set seen then seen else seen @ [x]) xs"

definition firstSeen :: "'a list \<Rightarrow> 'a list" where
  "firstSeen xs = firstSeenFrom [] xs"

definition keyBefore :: "string \<Rightarrow> string \<Rightarrow> bool" where
  "keyBefore a b =
     (case arrayIndex b of
        None \<Rightarrow> True
      | Some n \<Rightarrow> (case arrayIndex a of None \<Rightarrow> False | Some m \<Rightarrow> m \<le> n))"

definition isNonNegInteger :: "jsnum \<Rightarrow> bool" where
  "isNonNegInteger n = (case n of Fin r \<Rightarrow> 0 \<le> r \<and> r \<in> \<int> | _ \<Rightarrow> False)"

text \<open>
  Values that convert without an exception: everything but an array or an object.
\<close>

definition isPrimitive :: "json option \<Rightarrow> bool" where
  "isPrimitive v = (case v of Some (JArr xs) \<Rightarrow> False | Some (JObj kvs) \<Rightarrow> False | _ \<Rightarrow> True)"

text \<open>
  Payloads for the examples: a question with the options \<open>yes\<close> (count 3), \<open>no\<close>
  (count 2), \<open>maybe\<close> (no count) and \<open>many\<close> (count \<open>Infinity\<close>), and a question with
  the given options.
\<close>

definition optionOf :: "string \<Rightarrow> jsnum \<Rightarrow> json" where
  "optionOf name n = JObj [(''id'', JStr name), (''count'', JNum n)]"

definition payloadOf :: "json list \<Rightarrow> json option" where
  "payloadOf options =
     Some (JObj [(''values'', JArr [JObj [(''id'', JStr ''q''), (''options'', JArr options)]])])"

definition surveyEntry :: json where
  "surveyEntry =
     JObj [(''id'', JStr ''q1''), (''label'', JStr ''Q1''),
           (''options'', JArr [optionOf ''yes'' (Fin 3), optionOf ''no'' (Fin 2),
                               JObj [(''id'', JStr ''maybe'')], optionOf ''many'' PosInf])]"

definition surveyPayload :: "json option" where
  "surveyPayload = Some (JObj [(''values'', JArr [surveyEntry])])"

definition surveyRecord :: question where
  "surveyRecord =
     \<lparr> q_id = Some (JStr ''q1''), q_label = Some (JStr ''Q1''),
       aggregated = [(''yes'', Fin 3), (''no'', Fin 2), (''maybe'', Fin 0), (''many'', Fin 0)] \<rparr>"

section \<open>Properties of the palette generator\<close>

lemma paletteLoop_length:
  "length (paletteLoop source sz index palette) = length palette + nat (sz - int index)"
proof (induction source sz index palette rule: paletteLoop.induct)
  case (1 source sz index palette)
  show ?case
  proof (cases "int index < sz")
    case True
    with "1" show ?thesis by (subst paletteLoop.simps) simp
  next
    case False
    then show ?thesis by (subst paletteLoop.simps) simp
  qed
qed

lemma paletteLoop_nth:
  assumes "length palette = index" and "i < length (paletteLoop source sz index palette)"
    and "\<forall>j < length palette. palette ! j = source ! (j mod length source)"
  shows "paletteLoop source sz index palette ! i = source ! (i mod length source)"
  using assms
proof (induction source sz index palette rule: paletteLoop.induct)
  case (1 source sz index palette)
  show ?case
  proof (cases "int index < sz")
    case True
    let ?p = "palette @ [source ! (index mod length source)]"
    have eq: "paletteLoop source sz index palette = paletteLoop source sz (index + 1) ?p"
      using True by (subst paletteLoop.simps) simp
    have inv: "\<forall>j < length ?p. ?p ! j = source ! (j mod length source)"
      using "1.prems"(1,3) by (auto simp: nth_append less_Suc_eq)
    show ?thesis
      unfolding eq
      using "1.IH" [OF True] "1.prems"(1,2) inv eq by simp
  next
    case False
    then have "paletteLoop source sz index palette = palette"
      by (subst paletteLoop.simps) simp
    with "1.prems" show ?thesis by simp
  qed
qed

lemma paletteSource_cases:
  "paletteSource overrideColors =
     (case overrideColors of None \<Rightarrow> DEFAULT_COLORWAY
      | Some cs \<Rightarrow> if cs = [] then DEFAULT_COLORWAY else cs)"
  by (simp add: paletteSource_def split: option.splits)

text \<open>
  C9. For every integer \<open>size\<close> and optional override list, \<open>buildPalette\<close> returns the
  empty sequence when \<open>size \<le> 0\<close> and otherwise a sequence of exactly \<open>size\<close> elements,
  whose element at each position \<open>i\<close> is \<open>source[i mod length(source)]\<close>; \<open>source\<close> is the
  override list when that is a non-empty sequence and the ten-colour default otherwise.
\<close>

theorem buildPalette_cyclic:
  "(sz \<le> 0 \<longrightarrow> buildPalette sz overrideColors = []) \<and>
   length (buildPalette sz overrideColors) = nat sz \<and>
   (\<forall>i < nat sz. buildPalette sz overrideColors ! i =
        paletteSource overrideColors ! (i mod length (paletteSource overrideColors))) \<and>
   paletteSource overrideColors =
     (case overrideColors of None \<Rightarrow> DEFAULT_COLORWAY
      | Some cs \<Rightarrow> if cs = [] then DEFAULT_COLORWAY else cs) \<and>
   length DEFAULT_COLORWAY = 10"
proof -
  have len: "length (buildPalette sz overrideColors) = nat sz"
    by (simp add: buildPalette_def paletteLoop_length)
  have nth: "buildPalette sz overrideColors ! i =
      paletteSource overrideColors ! (i mod length (paletteSource overrideColors))"
    if "i < nat sz" for i
  proof -
    from that have pos: "\<not> sz \<le> 0" by simp
    have "i < length (paletteLoop (paletteSource overrideColors) sz 0 [])"
      using that by (simp add: paletteLoop_length)
    then show ?thesis
      using pos paletteLoop_nth [of "[]" 0 i "paletteSource overrideColors" sz]
      by (simp add: buildPalette_def)
  qed
  show ?thesis
    using len nth by (simp add: buildPalette_def paletteSource_cases DEFAULT_COLORWAY_def)
qed

theorem buildPalette_cyclic_witness:
  "buildPalette 12 None ! 10 = ''#1f77b4'' \<and> length (buildPalette 12 None) = 12 \<and>
   buildPalette 3 (Some [''#fff'', ''#000'']) = [''#fff'', ''#000'', ''#fff'']"
proof -
  have a: "buildPalette 12 None ! 10 = paletteSource None ! (10 mod length (paletteSource None))"
    using buildPalette_cyclic [of 12 None] by simp
  have b: "length (buildPalette 12 None) = 12"
    using buildPalette_cyclic [of 12 None] by simp
  have c: "buildPalette 3 (Some [''#fff'', ''#000'']) = [''#fff'', ''#000'', ''#fff'']"
    by (simp add: buildPalette_def paletteSource_def paletteLoop.simps)
  show ?thesis using a b c by (simp add: paletteSource_def DEFAULT_COLORWAY_def)
qed

section \<open>Properties of the request URL builder\<close>










lemma requestUrlObject_failed:
  "URL_new B (requestBase s) (requestOrigin B s) = Inl e \<Longrightarrow>
   requestUrlObject B s = Inl (requestBase s)"
  by (simp add: requestUrlObject_def)











text \<open>
  C7. The builder has a result for every browser and every settings object whose fields
  have the declared option types: when the \<open>URL\<close> constructor raises on the base (the
  endpoint when it is given and not empty, the fixed default otherwise), whatever the
  error, the result is the base unchanged; when it returns a URL, the result is the
  serialisation of a URL object. The constructor is the only operation of the function
  that can raise on such settings, and it stands inside the \<open>try\<close> block.
\<close>

theorem buildRequestUrl_fallback:
  "(URL_new B (requestBase s) (requestOrigin B s) = Inl e \<longrightarrow>
      buildRequestUrl B s = requestBase s) \<and>
   (URL_new B (requestBase s) (requestOrigin B s) = Inr u \<longrightarrow>
      (\<exists>u'. requestUrlObject B s = Inr u' \<and> buildRequestUrl B s = url_toString u')) \<and>
   requestBase s =
     (case endpoint s of None \<Rightarrow> DEFAULT_BASE_URL
      | Some a \<Rightarrow> if a = [] then DEFAULT_BASE_URL else a)"
  by (auto simp: buildRequestUrl_def requestUrlObject_def requestBase_def split: option.splits)

theorem buildRequestUrl_fallback_witness:
  "URL_new exampleBrowser ''http://['' None = Inl TypeError \<and>
   buildRequestUrl exampleBrowser (DEFAULT_OPTIONS\<lparr>endpoint := Some ''http://[''\<rparr>) = ''http://[''"
proof -
  let ?s = "DEFAULT_OPTIONS\<lparr>endpoint := Some ''http://[''\<rparr>"
  have base: "requestBase ?s = ''http://[''"
    by (simp add: requestBase_def)
  have origin: "requestOrigin exampleBrowser ?s = None"
    by (simp add: requestOrigin_def base startsWith_def)
  have fails: "URL_new exampleBrowser ''http://['' None = Inl TypeError"
    by (simp add: exampleBrowser_def)
  from buildRequestUrl_fallback [of exampleBrowser ?s TypeError] base origin fails
  show ?thesis by simp
qed





section \<open>Properties of the payload normaliser\<close>

lemma mapE_Inr:
  "mapE f xs = Inr ys \<Longrightarrow> list_all2 (\<lambda>x y. f x = Inr y) xs ys"
  by (induction xs arbitrary: ys) (auto split: sum.splits)

lemma reducer_Inr:
  "reducer E obj option = Inr obj' \<Longrightarrow>
   \<exists>kv. optionWrite E option = Inr kv \<and> obj' = objSet obj (fst kv) (snd kv)"
  by (auto simp: reducer_def split: sum.splits prod.splits)

lemma reduceE_reducer:
  "reduceE (reducer E) obj os = Inr agg \<Longrightarrow>
   \<exists>kvs. list_all2 (\<lambda>option kv. optionWrite E option = Inr kv) os kvs \<and>
         agg = foldl (\<lambda>m kv. objSet m (fst kv) (snd kv)) obj kvs"
proof (induction os arbitrary: obj)
  case Nil
  then show ?case by simp
next
  case (Cons option os)
  from Cons.prems obtain obj' where s: "reducer E obj option = Inr obj'"
    and r: "reduceE (reducer E) obj' os = Inr agg"
    by (cases "reducer E obj option") simp_all
  from reducer_Inr [OF s] obtain kv where w: "optionWrite E option = Inr kv"
    and o: "obj' = objSet obj (fst kv) (snd kv)"
    by blast
  from Cons.IH [OF r] obtain kvs where
    "list_all2 (\<lambda>option kv. optionWrite E option = Inr kv) os kvs"
    "agg = foldl (\<lambda>m kv. objSet m (fst kv) (snd kv)) obj' kvs"
    by blast
  with w o have "list_all2 (\<lambda>option kv. optionWrite E option = Inr kv) (option # os) (kv # kvs) \<and>
      agg = foldl (\<lambda>m kv. objSet m (fst kv) (snd kv)) obj (kv # kvs)"
    by simp
  then show ?case by blast
qed

lemma keys_update_in_place:
  "map fst (map (\<lambda>p. if fst p = key then (key, v) else p) obj) = map fst obj"
  by (induction obj) auto

lemma set_keys_insertIndexed:
  "fst ` set (insertIndexed n kv obj) = insert (fst kv) (fst ` set obj)"
  by (induction obj) (auto split: option.splits)

lemma keys_objSet_cases:
  "Object_keys (objSet obj key v) =
     (if key = ''__proto__'' \<or> key \<in> set (Object_keys obj) then Object_keys obj
      else case arrayIndex key of
             Some n \<Rightarrow> Object_keys (insertIndexed n (key, v) obj)
           | None \<Rightarrow> Object_keys obj @ [key])"
  unfolding Object_keys_def objSet_def
  by (simp only: keys_update_in_place split: option.splits if_splits) simp

lemma set_keys_objSet:
  "set (Object_keys (objSet obj key v)) =
     (if key = ''__proto__'' then set (Object_keys obj) else insert key (set (Object_keys obj)))"
  unfolding keys_objSet_cases
  by (auto simp: Object_keys_def set_keys_insertIndexed split: option.splits)

lemma distinct_keys_insertIndexed:
  "distinct (map fst obj) \<Longrightarrow> fst kv \<notin> fst ` set obj \<Longrightarrow>
   distinct (map fst (insertIndexed n kv obj))"
  by (induction obj) (auto simp: set_keys_insertIndexed split: option.splits)

lemma distinct_keys_objSet:
  "distinct (Object_keys obj) \<Longrightarrow> distinct (Object_keys (objSet obj key v))"
  unfolding keys_objSet_cases
  by (auto simp: Object_keys_def distinct_keys_insertIndexed split: option.splits)

lemma map_of_update_in_place:
  "map_of (map (\<lambda>p. if fst p = key then (key, v) else p) obj) k =
     (if k = key then map_option (\<lambda>w. v) (map_of obj k) else map_of obj k)"
  by (induction obj) auto

lemma map_of_insertIndexed:
  "fst kv \<notin> fst ` set obj \<Longrightarrow>
   map_of (insertIndexed n kv obj) k = (if k = fst kv then Some (snd kv) else map_of obj k)"
  by (induction obj) (auto split: option.splits)

lemma map_of_append_new:
  "key \<notin> fst ` set obj \<Longrightarrow>
   map_of (obj @ [(key, v)]) k = (if k = key then Some v else map_of obj k)"
  by (induction obj) (auto simp: image_iff)

lemma map_of_objSet:
  "map_of (objSet obj key v) k =
     (if key \<noteq> ''__proto__'' \<and> k = key then Some v else map_of obj k)"
proof -
  have "map_option (\<lambda>w. v) (map_of obj key) = Some v" if "key \<in> fst ` set obj"
    using that by (cases "map_of obj key") (auto simp: map_of_eq_None_iff)
  then show ?thesis
    unfolding objSet_def
    by (simp add: map_of_update_in_place map_of_insertIndexed map_of_append_new
        del: map_of_append split: option.splits)
qed

lemma map_of_foldl_objSet:
  "map_of (foldl (\<lambda>m kv. objSet m (fst kv) (snd kv)) obj kvs) k =
     (case map_of (rev kvs) k of
        Some v \<Rightarrow> if k = ''__proto__'' then map_of obj k else Some v
      | None \<Rightarrow> map_of obj k)"
proof (induction kvs arbitrary: obj)
  case Nil
  then show ?case by simp
next
  case (Cons kv kvs)
  show ?case
    by (simp add: Cons.IH map_of_objSet map_add_def split: option.splits)
qed

lemma set_keys_foldl_objSet:
  "set (Object_keys (foldl (\<lambda>m kv. objSet m (fst kv) (snd kv)) obj kvs)) =
     set (Object_keys obj) \<union> {k \<in> set (map fst kvs). k \<noteq> ''__proto__''}"
  by (induction kvs arbitrary: obj) (auto simp: set_keys_objSet)

lemma distinct_keys_foldl_objSet:
  "distinct (Object_keys obj) \<Longrightarrow>
   distinct (Object_keys (foldl (\<lambda>m kv. objSet m (fst kv) (snd kv)) obj kvs))"
  by (induction kvs arbitrary: obj) (auto simp: distinct_keys_objSet)

lemma strings_insertIndexed:
  "arrayIndex (fst kv) \<noteq> None \<Longrightarrow>
   filter (\<lambda>k. arrayIndex k = None) (map fst (insertIndexed n kv obj)) =
   filter (\<lambda>k. arrayIndex k = None) (map fst obj)"
  by (induction obj) (auto split: option.splits)

lemma strings_objSet:
  "filter (\<lambda>k. arrayIndex k = None) (Object_keys (objSet obj key v)) =
     (if key = ''__proto__'' \<or> arrayIndex key \<noteq> None \<or> key \<in> set (Object_keys obj)
      then filter (\<lambda>k. arrayIndex k = None) (Object_keys obj)
      else filter (\<lambda>k. arrayIndex k = None) (Object_keys obj) @ [key])"
  unfolding keys_objSet_cases
  by (auto simp: Object_keys_def strings_insertIndexed split: option.splits)

lemma strings_foldl_objSet:
  "filter (\<lambda>k. arrayIndex k = None)
       (Object_keys (foldl (\<lambda>m kv. objSet m (fst kv) (snd kv)) obj kvs)) =
   firstSeenFrom (filter (\<lambda>k. arrayIndex k = None) (Object_keys obj))
     (filter (\<lambda>k. arrayIndex k = None) (filter (\<lambda>k. k \<noteq> ''__proto__'') (map fst kvs)))"
proof (induction kvs arbitrary: obj)
  case Nil
  then show ?case by simp
next
  case (Cons kv kvs)
  show ?case
    by (simp add: Cons.IH strings_objSet)
qed

lemma sorted_insertIndexed:
  "sorted_wrt keyBefore (map fst obj) \<Longrightarrow> arrayIndex (fst kv) = Some n \<Longrightarrow>
   sorted_wrt keyBefore (map fst (insertIndexed n kv obj))"
proof (induction obj)
  case Nil
  then show ?case by simp
next
  case (Cons p ps)
  show ?case
  proof (cases "arrayIndex (fst p)")
    case None
    with Cons.prems show ?thesis
      by (auto simp: keyBefore_def split: option.splits)
  next
    case (Some m)
    show ?thesis
    proof (cases "m < n")
      case True
      with Some Cons show ?thesis
        by (auto simp: keyBefore_def set_keys_insertIndexed split: option.splits)
    next
      case False
      with Some Cons.prems show ?thesis
        by (fastforce simp: keyBefore_def split: option.splits)
    qed
  qed
qed

lemma sorted_append_string:
  "sorted_wrt keyBefore ks \<Longrightarrow> arrayIndex key = None \<Longrightarrow> sorted_wrt keyBefore (ks @ [key])"
  by (simp add: sorted_wrt_append keyBefore_def)

lemma sorted_objSet:
  "sorted_wrt keyBefore (Object_keys obj) \<Longrightarrow>
   sorted_wrt keyBefore (Object_keys (objSet obj key v))"
  unfolding keys_objSet_cases
  by (auto simp: Object_keys_def sorted_insertIndexed sorted_append_string split: option.splits)

lemma sorted_foldl_objSet:
  "sorted_wrt keyBefore (Object_keys obj) \<Longrightarrow>
   sorted_wrt keyBefore (Object_keys (foldl (\<lambda>m kv. objSet m (fst kv) (snd kv)) obj kvs))"
  by (induction kvs arbitrary: obj) (auto simp: sorted_objSet)

lemma map_of_rev_last:
  "j < length kvs \<Longrightarrow>
   (\<forall>j'. j < j' \<and> j' < length kvs \<longrightarrow> fst (kvs ! j') \<noteq> fst (kvs ! j)) \<Longrightarrow>
   map_of (rev kvs) (fst (kvs ! j)) = Some (snd (kvs ! j))"
proof (induction kvs arbitrary: j)
  case Nil
  then show ?case by simp
next
  case (Cons kv kvs)
  show ?case
  proof (cases j)
    case 0
    have "fst kv \<notin> fst ` set kvs"
    proof
      assume "fst kv \<in> fst ` set kvs"
      then obtain p where "p \<in> set kvs" "fst p = fst kv" by auto
      then obtain m where "m < length kvs" "kvs ! m = p" by (auto simp: in_set_conv_nth)
      with Cons.prems(2) [rule_format, of "Suc m"] 0 \<open>fst p = fst kv\<close> show False by simp
    qed
    then have "map_of (rev kvs) (fst kv) = None"
      by (simp add: map_of_eq_None_iff)
    with 0 show ?thesis by (simp add: map_add_def)
  next
    case (Suc j0)
    have "map_of (rev kvs) (fst (kvs ! j0)) = Some (snd (kvs ! j0))"
    proof (rule Cons.IH)
      show "j0 < length kvs" using Cons.prems(1) Suc by simp
      show "\<forall>j'. j0 < j' \<and> j' < length kvs \<longrightarrow> fst (kvs ! j') \<noteq> fst (kvs ! j0)"
      proof (intro allI impI)
        fix j' assume "j0 < j' \<and> j' < length kvs"
        with Cons.prems(2) [rule_format, of "Suc j'"] Suc show "fst (kvs ! j') \<noteq> fst (kvs ! j0)"
          by simp
      qed
    qed
    with Suc show ?thesis by (simp add: map_add_def)
  qed
qed

lemma normalisePayload_entries:
  "normalisePayload E payload = Inr qs \<Longrightarrow>
   list_all2 (\<lambda>entry q. mapEntry E entry = Inr q) (retainedEntries payload) qs"
  unfolding normalisePayload_def by (rule mapE_Inr)

lemma normalisePayload_nth:
  assumes "normalisePayload E payload = Inr qs" and "i < length qs"
  shows "mapEntry E (retainedEntries payload ! i) = Inr (qs ! i)"
    and "length (retainedEntries payload) = length qs"
  using normalisePayload_entries [OF assms(1)] assms(2)
  by (auto simp: list_all2_conv_all_nth)

lemma mapEntry_Inr:
  assumes "mapEntry E entry = Inr q"
  shows "q_id q = get (Some entry) ''id''"
    and "q_label q =
      orElse (orElse (get (Some entry) ''label'') (get (Some entry) ''title'')) (get (Some entry) ''id'')"
    and "reduceE (reducer E) [] (retainedOptions entry) = Inr (aggregated q)"
  using assms by (auto simp: mapEntry_def Let_def split: sum.splits)

lemma mapEntry_writes:
  assumes "mapEntry E entry = Inr q"
  shows "\<exists>kvs. list_all2 (\<lambda>option kv. optionWrite E option = Inr kv) (retainedOptions entry) kvs \<and>
           aggregated q = foldl (\<lambda>m kv. objSet m (fst kv) (snd kv)) [] kvs"
  using reduceE_reducer [OF mapEntry_Inr(3) [OF assms]] .

lemma optionWrite_Inr:
  assumes "optionWrite E option = Inr (k, v)"
  shows "\<exists>n. ToNumber E (nullish (get (Some option) ''count'') (Some (JNum (Fin 0)))) = Inr n \<and>
           ToPropertyKey E (get (Some option) ''id'') = Inr k \<and>
           v = (if isFinite n then n else Fin 0)"
  using assms by (auto simp: optionWrite_def Let_def split: sum.splits)

lemmas eval_defs = normalisePayload_def retainedEntries_def retainedOptions_def arrayOrEmpty_def
  hasId_def mapEntry_def reducer_def optionWrite_def nullish_def isFinite_def objSet_def
  arrayIndex_def isDigit_def decimalValue_def orElse_def Let_def Object_keys_def
  payloadOf_def optionOf_def surveyPayload_def surveyEntry_def surveyRecord_def

lemma ToString_primitive: "isPrimitive (Some v) \<Longrightarrow> \<exists>s. ToString E v = Inr s"
proof (cases v)
  case (JNum n)
  then show ?thesis by (cases n) simp_all
qed (simp_all add: isPrimitive_def)

lemma ToPropertyKey_primitive: "isPrimitive v \<Longrightarrow> \<exists>s. ToPropertyKey E v = Inr s"
  by (cases v) (simp_all add: ToString_primitive)

lemma ToNumber_primitive: "isPrimitive v \<Longrightarrow> \<exists>n. ToNumber E v = Inr n"
proof (cases v)
  case None
  then show ?thesis by simp
next
  case (Some j)
  assume "isPrimitive v"
  with Some show ?thesis by (cases j) (simp_all add: isPrimitive_def)
qed

lemma optionWrite_primitive:
  assumes "isPrimitive (get (Some option) ''id'')" and "isPrimitive (get (Some option) ''count'')"
  shows "\<exists>kv. optionWrite E option = Inr kv"
proof -
  have "isPrimitive (nullish (get (Some option) ''count'') (Some (JNum (Fin 0))))"
    using assms(2) by (simp add: nullish_def isPrimitive_def)
  from ToNumber_primitive [OF this] obtain n where
    "ToNumber E (nullish (get (Some option) ''count'') (Some (JNum (Fin 0)))) = Inr n" by blast
  moreover from ToPropertyKey_primitive [OF assms(1)] obtain k where
    "ToPropertyKey E (get (Some option) ''id'') = Inr k" by blast
  ultimately show ?thesis by (simp add: optionWrite_def)
qed

lemma reduceE_returns:
  "(\<And>x acc. x \<in> set xs \<Longrightarrow> \<exists>acc'. f acc x = Inr acc') \<Longrightarrow> \<exists>r. reduceE f acc xs = Inr r"
proof (induction xs arbitrary: acc)
  case Nil
  then show ?case by simp
next
  case (Cons x xs)
  from Cons.prems [of x acc] obtain acc' where "f acc x = Inr acc'" by auto
  moreover from Cons.IH [of acc'] Cons.prems obtain r where "reduceE f acc' xs = Inr r"
    by auto
  ultimately show ?case by simp
qed

lemma mapE_returns:
  "(\<And>x. x \<in> set xs \<Longrightarrow> \<exists>y. f x = Inr y) \<Longrightarrow> \<exists>ys. mapE f xs = Inr ys"
proof (induction xs)
  case Nil
  then show ?case by simp
next
  case (Cons x xs)
  from Cons.prems [of x] obtain y where "f x = Inr y" by auto
  moreover from Cons.IH Cons.prems obtain ys where "mapE f xs = Inr ys" by auto
  ultimately show ?case by simp
qed

lemma normalisePayload_returns:
  assumes "\<And>entry option. entry \<in> set (retainedEntries payload) \<Longrightarrow>
      option \<in> set (retainedOptions entry) \<Longrightarrow>
      isPrimitive (get (Some option) ''id'') \<and> isPrimitive (get (Some option) ''count'')"
  shows "\<exists>qs. normalisePayload E payload = Inr qs"
  unfolding normalisePayload_def
proof (rule mapE_returns)
  fix entry assume e: "entry \<in> set (retainedEntries payload)"
  have "\<exists>agg. reduceE (reducer E) [] (retainedOptions entry) = Inr agg"
  proof (rule reduceE_returns)
    fix option acc assume "option \<in> set (retainedOptions entry)"
    from assms [OF e this] optionWrite_primitive [of option E]
    obtain kv where "optionWrite E option = Inr kv" by blast
    then show "\<exists>acc'. reducer E acc option = Inr acc'"
      by (cases kv) (simp add: reducer_def)
  qed
  then show "\<exists>q. mapEntry E entry = Inr q"
    by (auto simp: mapEntry_def Let_def)
qed

lemma aggregated_from_option:
  assumes "mapEntry E entry = Inr q" and "(k, v) \<in> set (aggregated q)"
  shows "\<exists>option \<in> set (retainedOptions entry). optionWrite E option = Inr (k, v)"
proof -
  from mapEntry_writes [OF assms(1)] obtain kvs where
    w: "list_all2 (\<lambda>option kv. optionWrite E option = Inr kv) (retainedOptions entry) kvs"
    and agg: "aggregated q = foldl (\<lambda>m kv. objSet m (fst kv) (snd kv)) [] kvs"
    by blast
  have "distinct (map fst (aggregated q))"
    using distinct_keys_foldl_objSet [of "[]" kvs] by (simp add: agg Object_keys_def)
  with assms(2) have "map_of (aggregated q) k = Some v" by simp
  then have "map_of (rev kvs) k = Some v"
    unfolding agg map_of_foldl_objSet by (simp split: option.splits if_splits)
  then have "(k, v) \<in> set kvs"
    using map_of_SomeD by fastforce
  then obtain j where "j < length kvs" "kvs ! j = (k, v)"
    by (auto simp: in_set_conv_nth)
  with w have "retainedOptions entry ! j \<in> set (retainedOptions entry)"
    "optionWrite E (retainedOptions entry ! j) = Inr (k, v)"
    by (auto simp: list_all2_conv_all_nth)
  then show ?thesis by blast
qed

lemma retained_option_written:
  assumes "mapEntry E entry = Inr q" and "option \<in> set (retainedOptions entry)"
  shows "\<exists>kv. optionWrite E option = Inr kv"
proof -
  from mapEntry_writes [OF assms(1)] obtain kvs where
    w: "list_all2 (\<lambda>option kv. optionWrite E option = Inr kv) (retainedOptions entry) kvs"
    by blast
  from assms(2) obtain j where "j < length (retainedOptions entry)" "retainedOptions entry ! j = option"
    by (auto simp: in_set_conv_nth)
  with w show ?thesis by (auto simp: list_all2_conv_all_nth)
qed

lemma ToNumber_absent:
  "get (Some option) ''count'' = None \<Longrightarrow>
   ToNumber E (nullish (get (Some option) ''count'') (Some (JNum (Fin 0)))) = Inr (Fin 0)"
  by (simp add: nullish_def)

lemma normalisePayload_without_values:
  "(\<nexists>vs. get payload ''values'' = Some (JArr vs)) \<Longrightarrow> normalisePayload E payload = Inr []"
  by (auto simp: normalisePayload_def retainedEntries_def arrayOrEmpty_def
      split: option.splits json.splits)

text \<open>
  C2. The claim is that \<open>normalisePayload\<close> returns a sequence for every payload and never
  raises. Where \<open>payload.values\<close> is absent or not an array the result is the empty
  sequence (\<open>normalisePayload_without_values\<close>), and the normaliser returns whenever
  the ids and counts of the retained options are neither arrays nor objects
  (\<open>normalisePayload_returns\<close>). It raises on the JSON payload below, for every engine:
  the count of the option is an object with an own property \<open>toString\<close>, and
  \<open>Number(option?.count ?? 0)\<close> cannot convert it to a primitive.
\<close>

theorem normalisePayload_throws:
  "normalisePayload E
     (payloadOf [JObj [(''id'', JStr ''a''), (''count'', JObj [(''toString'', JNum (Fin 0))])]])
   = Inl TypeError"
  by (simp add: eval_defs)

text \<open>
  C3. For every payload whose \<open>values\<close> is an array \<open>vs\<close>, when the normaliser returns the
  records \<open>qs\<close>: the records stand, one to one and in the same order, for the entries
  of \<open>vs\<close> that have a truthy \<open>id\<close>; each is the record of its entry and carries the
  entry's \<open>id\<close>. Entries without a truthy \<open>id\<close> have no record, and nothing is
  reordered.
\<close>

theorem normalisePayload_order:
  assumes "get payload ''values'' = Some (JArr vs)"
    and "normalisePayload E payload = Inr qs"
  shows "map q_id qs =
           map (\<lambda>entry. get (Some entry) ''id'') (filter (\<lambda>entry. truthy (get (Some entry) ''id'')) vs) \<and>
         list_all2 (\<lambda>entry q. mapEntry E entry = Inr q)
           (filter (\<lambda>entry. truthy (get (Some entry) ''id'')) vs) qs"
proof -
  have kept: "retainedEntries payload = filter (\<lambda>entry. truthy (get (Some entry) ''id'')) vs"
    using assms(1) by (simp add: retainedEntries_def arrayOrEmpty_def hasId_def [abs_def])
  have all2: "list_all2 (\<lambda>entry q. mapEntry E entry = Inr q) (retainedEntries payload) qs"
    using assms(2) by (rule normalisePayload_entries)
  then have "list_all2 (\<lambda>entry q. get (Some entry) ''id'' = q_id q) (retainedEntries payload) qs"
    by (rule list_all2_mono) (simp add: mapEntry_Inr(1))
  then have "map (\<lambda>entry. get (Some entry) ''id'') (retainedEntries payload) = map q_id qs"
    by (simp add: list_all2_conv_all_nth list_eq_iff_nth_eq)
  with all2 kept show ?thesis by simp
qed

theorem normalisePayload_order_witness:
  "normalisePayload exampleEngine
     (Some (JObj [(''values'', JArr [JObj [(''id'', JStr ''B'')], JObj [(''label'', JStr ''no id'')],
                                     JObj [(''id'', JStr ''A'')], JNull, JObj [(''id'', JStr ''C'')]])]))
   = Inr [\<lparr>q_id = Some (JStr ''B''), q_label = Some (JStr ''B''), aggregated = []\<rparr>,
          \<lparr>q_id = Some (JStr ''A''), q_label = Some (JStr ''A''), aggregated = []\<rparr>,
          \<lparr>q_id = Some (JStr ''C''), q_label = Some (JStr ''C''), aggregated = []\<rparr>] \<and>
   map q_id [\<lparr>q_id = Some (JStr ''B''), q_label = Some (JStr ''B''), aggregated = []\<rparr>,
          \<lparr>q_id = Some (JStr ''A''), q_label = Some (JStr ''A''), aggregated = []\<rparr>,
          \<lparr>q_id = Some (JStr ''C''), q_label = Some (JStr ''C''), aggregated = []\<rparr>]
     = map (\<lambda>entry. get (Some entry) ''id'')
         [JObj [(''id'', JStr ''B'')], JObj [(''id'', JStr ''A'')], JObj [(''id'', JStr ''C'')]]"
proof -
  let ?vs = "[JObj [(''id'', JStr ''B'')], JObj [(''label'', JStr ''no id'')],
              JObj [(''id'', JStr ''A'')], JNull, JObj [(''id'', JStr ''C'')]]"
  let ?p = "Some (JObj [(''values'', JArr ?vs)])"
  let ?qs = "[\<lparr>q_id = Some (JStr ''B''), q_label = Some (JStr ''B''), aggregated = []\<rparr>,
          \<lparr>q_id = Some (JStr ''A''), q_label = Some (JStr ''A''), aggregated = []\<rparr>,
          \<lparr>q_id = Some (JStr ''C''), q_label = Some (JStr ''C''), aggregated = []\<rparr>]"
  have v: "get ?p ''values'' = Some (JArr ?vs)" by simp
  have r: "normalisePayload exampleEngine ?p = Inr ?qs"
    by (simp add: eval_defs)
  from normalisePayload_order [OF v r] r show ?thesis by simp
qed

lemma mapEntry_keyed_writes:
  assumes "mapEntry E entry = Inr q"
  shows "\<exists>kvs.
    list_all2 (\<lambda>option kv. optionWrite E option = Inr kv \<and>
        ToPropertyKey E (get (Some option) ''id'') = Inr (fst kv))
      (retainedOptions entry) kvs \<and>
    aggregated q = foldl (\<lambda>m kv. objSet m (fst kv) (snd kv)) [] kvs"
proof -
  from mapEntry_writes [OF assms] obtain kvs where
    w: "list_all2 (\<lambda>option kv. optionWrite E option = Inr kv) (retainedOptions entry) kvs"
    and agg: "aggregated q = foldl (\<lambda>m kv. objSet m (fst kv) (snd kv)) [] kvs"
    by blast
  have "optionWrite E option = Inr kv \<Longrightarrow>
      ToPropertyKey E (get (Some option) ''id'') = Inr (fst kv)" for option kv
    using optionWrite_Inr [of E option "fst kv" "snd kv"] by auto
  with w have "list_all2 (\<lambda>option kv. optionWrite E option = Inr kv \<and>
        ToPropertyKey E (get (Some option) ''id'') = Inr (fst kv)) (retainedOptions entry) kvs"
    by (auto elim: list_all2_mono)
  with agg show ?thesis by blast
qed

text \<open>
  C4, as amended. For every retained entry (the \<open>i\<close>-th, with the \<open>i\<close>-th record) none
  of whose options with a truthy \<open>id\<close> has the key \<open>__proto__\<close>, let \<open>kvs\<close> be the keys and
  counts that the reducer computes for these options, in their order; a key is the
  string form of the option's \<open>id\<close>. The keys of \<open>aggregated\<close> are those keys, each once.
  The keys that are array indices stand first, in ascending numeric order; the other
  keys follow in first-seen order. The count under a key is that of the last option
  with the key. (An entry with an option of the key \<open>__proto__\<close> is left out of the
  statement.)

  As stated (all keys in first-seen order) the claim fails: the options \<open>b\<close>, \<open>1\<close> give
  the keys \<open>1\<close>, \<open>b\<close>.
\<close>

theorem normalisePayload_key_order:
  assumes "normalisePayload E payload = Inr qs" and "i < length qs"
    and "\<forall>option \<in> set (retainedOptions (retainedEntries payload ! i)).
           ToPropertyKey E (get (Some option) ''id'') \<noteq> Inr ''__proto__''"
  shows "\<exists>kvs.
    list_all2 (\<lambda>option kv. optionWrite E option = Inr kv \<and>
        ToPropertyKey E (get (Some option) ''id'') = Inr (fst kv))
      (retainedOptions (retainedEntries payload ! i)) kvs \<and>
    set (Object_keys (aggregated (qs ! i))) = set (map fst kvs) \<and>
    distinct (Object_keys (aggregated (qs ! i))) \<and>
    sorted_wrt keyBefore (Object_keys (aggregated (qs ! i))) \<and>
    filter (\<lambda>k. arrayIndex k = None) (Object_keys (aggregated (qs ! i))) =
      firstSeen (filter (\<lambda>k. arrayIndex k = None) (map fst kvs)) \<and>
    (\<forall>j < length kvs.
       (\<forall>j'. j < j' \<and> j' < length kvs \<longrightarrow> fst (kvs ! j') \<noteq> fst (kvs ! j)) \<longrightarrow>
       map_of (aggregated (qs ! i)) (fst (kvs ! j)) = Some (snd (kvs ! j)))"
proof -
  let ?agg = "aggregated (qs ! i)"
  let ?options = "retainedOptions (retainedEntries payload ! i)"
  have "mapEntry E (retainedEntries payload ! i) = Inr (qs ! i)"
    using assms(1,2) by (rule normalisePayload_nth(1))
  from mapEntry_keyed_writes [OF this] obtain kvs where
    w: "list_all2 (\<lambda>option kv. optionWrite E option = Inr kv \<and>
          ToPropertyKey E (get (Some option) ''id'') = Inr (fst kv)) ?options kvs"
    and agg: "?agg = foldl (\<lambda>m kv. objSet m (fst kv) (snd kv)) [] kvs"
    by blast
  have plain: "fst (kvs ! j) \<noteq> ''__proto__''" if "j < length kvs" for j
  proof -
    from w that have "?options ! j \<in> set ?options"
      and "ToPropertyKey E (get (Some (?options ! j)) ''id'') = Inr (fst (kvs ! j))"
      by (auto simp: list_all2_conv_all_nth)
    with assms(3) show ?thesis by auto
  qed
  have all: "\<forall>k \<in> set (map fst kvs). k \<noteq> ''__proto__''"
  proof
    fix k assume "k \<in> set (map fst kvs)"
    then obtain j where "j < length kvs" "fst (kvs ! j) = k"
      by (auto simp: in_set_conv_nth)
    with plain [of j] show "k \<noteq> ''__proto__''" by simp
  qed
  then have same: "filter (\<lambda>k. k \<noteq> ''__proto__'') (map fst kvs) = map fst kvs"
    by (simp only: filter_id_conv)
  have keys: "set (Object_keys ?agg) = set (map fst kvs)"
    unfolding agg set_keys_foldl_objSet using all by (auto simp: Object_keys_def)
  have dist: "distinct (Object_keys ?agg)"
    unfolding agg by (rule distinct_keys_foldl_objSet) (simp add: Object_keys_def)
  have sorted: "sorted_wrt keyBefore (Object_keys ?agg)"
    unfolding agg by (rule sorted_foldl_objSet) (simp add: Object_keys_def)
  have strings: "filter (\<lambda>k. arrayIndex k = None) (Object_keys ?agg) =
      firstSeen (filter (\<lambda>k. arrayIndex k = None) (map fst kvs))"
    unfolding agg strings_foldl_objSet same by (simp add: Object_keys_def firstSeen_def)
  have last: "map_of ?agg (fst (kvs ! j)) = Some (snd (kvs ! j))"
    if "j < length kvs"
      "\<forall>j'. j < j' \<and> j' < length kvs \<longrightarrow> fst (kvs ! j') \<noteq> fst (kvs ! j)" for j
    unfolding agg map_of_foldl_objSet
    using map_of_rev_last [OF that(1) that(2)] plain [OF that(1)] by simp
  from w keys dist sorted strings last show ?thesis by blast
qed

theorem normalisePayload_key_order_counterexample:
  "normalisePayload exampleEngine (payloadOf [optionOf ''b'' (Fin 5), optionOf ''1'' (Fin 7)])
   = Inr [\<lparr>q_id = Some (JStr ''q''), q_label = Some (JStr ''q''),
           aggregated = [(''1'', Fin 7), (''b'', Fin 5)]\<rparr>] \<and>
   map (\<lambda>option. ToPropertyKey exampleEngine (get (Some option) ''id''))
     [optionOf ''b'' (Fin 5), optionOf ''1'' (Fin 7)] = [Inr ''b'', Inr ''1''] \<and>
   Object_keys [(''1'', Fin 7 :: jsnum), (''b'', Fin 5)] \<noteq> firstSeen [''b'', ''1'']"
  by (simp add: eval_defs firstSeen_def)

theorem normalisePayload_key_order_witness:
  "normalisePayload exampleEngine
     (payloadOf [optionOf ''no'' (Fin 2), optionOf ''10'' (Fin 1), optionOf ''yes'' (Fin 3),
                 optionOf ''9'' (Fin 4), optionOf ''no'' (Fin 6)])
   = Inr [\<lparr>q_id = Some (JStr ''q''), q_label = Some (JStr ''q''),
           aggregated = [(''9'', Fin 4), (''10'', Fin 1), (''no'', Fin 6), (''yes'', Fin 3)]\<rparr>] \<and>
   sorted_wrt keyBefore [''9'', ''10'', ''no'', ''yes''] \<and>
   distinct [''9'', ''10'', ''no'', ''yes''] \<and>
   filter (\<lambda>k. arrayIndex k = None) [''9'', ''10'', ''no'', ''yes''] = [''no'', ''yes'']"
proof -
  let ?os = "[optionOf ''no'' (Fin 2), optionOf ''10'' (Fin 1), optionOf ''yes'' (Fin 3),
                 optionOf ''9'' (Fin 4), optionOf ''no'' (Fin 6)]"
  let ?p = "payloadOf ?os"
  let ?qs = "[\<lparr>q_id = Some (JStr ''q''), q_label = Some (JStr ''q''),
           aggregated = [(''9'', Fin 4), (''10'', Fin 1), (''no'', Fin 6), (''yes'', Fin 3)]\<rparr>]"
  have r: "normalisePayload exampleEngine ?p = Inr ?qs"
    by (simp add: eval_defs)
  have i: "0 < length ?qs" by simp
  have o: "retainedOptions (retainedEntries ?p ! 0) = ?os"
    by (simp add: eval_defs)
  have plain: "\<forall>option \<in> set (retainedOptions (retainedEntries ?p ! 0)).
      ToPropertyKey exampleEngine (get (Some option) ''id'') \<noteq> Inr ''__proto__''"
    unfolding o by (simp add: optionOf_def)
  from normalisePayload_key_order [OF r i plain] obtain kvs :: "(string \<times> jsnum) list" where
    "sorted_wrt keyBefore (Object_keys (aggregated (?qs ! 0)))"
    "distinct (Object_keys (aggregated (?qs ! 0)))"
    by blast
  moreover have "filter (\<lambda>k. arrayIndex k = None) [''9'', ''10'', ''no'', ''yes''] = [''no'', ''yes'']"
    by (simp add: arrayIndex_def isDigit_def decimalValue_def)
  ultimately show ?thesis using r by (simp add: Object_keys_def)
qed

text \<open>
  C5, as amended. For every retained entry (the \<open>i\<close>-th, with the \<open>i\<close>-th record) and
  every option of it with a truthy \<open>id\<close> (the \<open>j\<close>-th of them) that is the last of them
  with its key, the key not being \<open>__proto__\<close>: the count that \<open>aggregated\<close> holds under
  the option's key is the number \<open>n = Number(option?.count ?? 0)\<close> when \<open>n\<close> is finite and
  0 otherwise, so 0 when the count is absent. Conversely, every count in \<open>aggregated\<close>
  is the number so computed for one of the entry's options with a truthy \<open>id\<close>, under
  its key. (An option of the key \<open>__proto__\<close> is left out of the statement.)

  As stated (for every retained option) the claim fails: of two options with the id
  \<open>a\<close> and the counts 1 and 2, the first has the aggregated count 2.
\<close>

theorem normalisePayload_counts:
  assumes "normalisePayload E payload = Inr qs" and "i < length qs"
    and "j < length (retainedOptions (retainedEntries payload ! i))"
    and "ToPropertyKey E (get (Some (retainedOptions (retainedEntries payload ! i) ! j)) ''id'')
           \<noteq> Inr ''__proto__''"
    and "\<forall>j'. j < j' \<and> j' < length (retainedOptions (retainedEntries payload ! i)) \<longrightarrow>
           ToPropertyKey E (get (Some (retainedOptions (retainedEntries payload ! i) ! j')) ''id'') \<noteq>
           ToPropertyKey E (get (Some (retainedOptions (retainedEntries payload ! i) ! j)) ''id'')"
  shows "(\<exists>k n.
      ToPropertyKey E (get (Some (retainedOptions (retainedEntries payload ! i) ! j)) ''id'') = Inr k \<and>
      ToNumber E (nullish (get (Some (retainedOptions (retainedEntries payload ! i) ! j)) ''count'')
          (Some (JNum (Fin 0)))) = Inr n \<and>
      map_of (aggregated (qs ! i)) k = Some (if isFinite n then n else Fin 0) \<and>
      (get (Some (retainedOptions (retainedEntries payload ! i) ! j)) ''count'' = None \<longrightarrow>
         map_of (aggregated (qs ! i)) k = Some (Fin 0))) \<and>
    (\<forall>(k, v) \<in> set (aggregated (qs ! i)).
       \<exists>option \<in> set (retainedOptions (retainedEntries payload ! i)).
       \<exists>n. ToPropertyKey E (get (Some option) ''id'') = Inr k \<and>
            ToNumber E (nullish (get (Some option) ''count'') (Some (JNum (Fin 0)))) = Inr n \<and>
            v = (if isFinite n then n else Fin 0))"
proof -
  let ?entry = "retainedEntries payload ! i"
  let ?options = "retainedOptions ?entry"
  let ?agg = "aggregated (qs ! i)"
  have m: "mapEntry E ?entry = Inr (qs ! i)"
    using assms(1,2) by (rule normalisePayload_nth(1))
  from mapEntry_keyed_writes [OF m] obtain kvs where
    w: "list_all2 (\<lambda>option kv. optionWrite E option = Inr kv \<and>
          ToPropertyKey E (get (Some option) ''id'') = Inr (fst kv)) ?options kvs"
    and agg: "?agg = foldl (\<lambda>m kv. objSet m (fst kv) (snd kv)) [] kvs"
    by blast
  have len: "length kvs = length ?options"
    using w by (simp add: list_all2_lengthD)
  have at: "optionWrite E (?options ! l) = Inr (kvs ! l)"
      "ToPropertyKey E (get (Some (?options ! l)) ''id'') = Inr (fst (kvs ! l))"
    if "l < length ?options" for l
    using w that by (auto simp: list_all2_conv_all_nth)
  let ?k = "fst (kvs ! j)"
  let ?v = "snd (kvs ! j)"
  have key: "ToPropertyKey E (get (Some (?options ! j)) ''id'') = Inr ?k"
    using at(2) [OF assms(3)] .
  have "optionWrite E (?options ! j) = Inr (?k, ?v)"
    using at(1) [OF assms(3)] by simp
  from optionWrite_Inr [OF this] obtain n where
    n: "ToNumber E (nullish (get (Some (?options ! j)) ''count'') (Some (JNum (Fin 0)))) = Inr n"
    and v: "?v = (if isFinite n then n else Fin 0)"
    by blast
  have plain: "?k \<noteq> ''__proto__''"
    using assms(4) key by simp
  have later: "\<forall>j'. j < j' \<and> j' < length kvs \<longrightarrow> fst (kvs ! j') \<noteq> ?k"
  proof (intro allI impI)
    fix j' assume j': "j < j' \<and> j' < length kvs"
    then have "ToPropertyKey E (get (Some (?options ! j')) ''id'') = Inr (fst (kvs ! j'))"
      using at(2) [of j'] len by simp
    with assms(5) j' len key show "fst (kvs ! j') \<noteq> ?k" by auto
  qed
  have "j < length kvs" using assms(3) len by simp
  from map_of_rev_last [OF this later] plain
  have stored: "map_of ?agg ?k = Some (if isFinite n then n else Fin 0)"
    unfolding agg map_of_foldl_objSet using v by simp
  have absent: "get (Some (?options ! j)) ''count'' = None \<longrightarrow> map_of ?agg ?k = Some (Fin 0)"
  proof
    assume "get (Some (?options ! j)) ''count'' = None"
    then have "n = Fin 0" using n by (simp add: nullish_def)
    with stored show "map_of ?agg ?k = Some (Fin 0)" by (simp add: isFinite_def)
  qed
  have first: "\<exists>k n.
      ToPropertyKey E (get (Some (?options ! j)) ''id'') = Inr k \<and>
      ToNumber E (nullish (get (Some (?options ! j)) ''count'') (Some (JNum (Fin 0)))) = Inr n \<and>
      map_of ?agg k = Some (if isFinite n then n else Fin 0) \<and>
      (get (Some (?options ! j)) ''count'' = None \<longrightarrow> map_of ?agg k = Some (Fin 0))"
    by (rule exI [of _ ?k], rule exI [of _ n], intro conjI) (rule key n stored absent)+
  have second: "\<exists>option \<in> set ?options.
           \<exists>n. ToPropertyKey E (get (Some option) ''id'') = Inr k \<and>
                ToNumber E (nullish (get (Some option) ''count'') (Some (JNum (Fin 0)))) = Inr n \<and>
                v = (if isFinite n then n else Fin 0)"
    if "(k, v) \<in> set ?agg" for k v
  proof -
    from aggregated_from_option [OF m that] obtain option where
      "option \<in> set ?options" "optionWrite E option = Inr (k, v)"
      by blast
    with optionWrite_Inr [of E option k v] show ?thesis by blast
  qed
  from first second show ?thesis by blast
qed

theorem normalisePayload_counts_counterexample:
  "normalisePayload exampleEngine (payloadOf [optionOf ''a'' (Fin 1), optionOf ''a'' (Fin 2)])
   = Inr [\<lparr>q_id = Some (JStr ''q''), q_label = Some (JStr ''q''),
           aggregated = [(''a'', Fin 2)]\<rparr>] \<and>
   hasId (optionOf ''a'' (Fin 1)) \<and>
   ToPropertyKey exampleEngine (get (Some (optionOf ''a'' (Fin 1))) ''id'') = Inr ''a'' \<and>
   ToNumber exampleEngine (nullish (get (Some (optionOf ''a'' (Fin 1))) ''count'')
       (Some (JNum (Fin 0)))) = Inr (Fin 1) \<and>
   map_of [(''a'', Fin 2 :: jsnum)] ''a'' \<noteq> Some (Fin 1)"
  by (simp add: eval_defs)

theorem normalisePayload_counts_witness:
  "normalisePayload exampleEngine surveyPayload = Inr [surveyRecord] \<and>
   retainedOptions surveyEntry ! 3 = optionOf ''many'' PosInf \<and>
   retainedOptions surveyEntry ! 2 = JObj [(''id'', JStr ''maybe'')] \<and>
   map_of (aggregated surveyRecord) ''yes'' = Some (Fin 3) \<and>
   map_of (aggregated surveyRecord) ''maybe'' = Some (Fin 0) \<and>
   map_of (aggregated surveyRecord) ''many'' = Some (Fin 0)"
proof -
  let ?options = "[optionOf ''yes'' (Fin 3), optionOf ''no'' (Fin 2),
      JObj [(''id'', JStr ''maybe'')], optionOf ''many'' PosInf]"
  have r: "normalisePayload exampleEngine surveyPayload = Inr [surveyRecord]"
    by (simp add: eval_defs)
  have i: "0 < length [surveyRecord]" by simp
  have o: "retainedOptions (retainedEntries surveyPayload ! 0) = ?options"
    by (simp add: eval_defs)
  have o': "retainedOptions surveyEntry = ?options"
    by (simp add: eval_defs)
  have j: "3 < length (retainedOptions (retainedEntries surveyPayload ! 0))"
    unfolding o by simp
  have plain: "ToPropertyKey exampleEngine
      (get (Some (retainedOptions (retainedEntries surveyPayload ! 0) ! 3)) ''id'') \<noteq> Inr ''__proto__''"
    unfolding o by (simp add: optionOf_def)
  have last: "\<forall>j'. 3 < j' \<and> j' < length (retainedOptions (retainedEntries surveyPayload ! 0)) \<longrightarrow>
      ToPropertyKey exampleEngine
        (get (Some (retainedOptions (retainedEntries surveyPayload ! 0) ! j')) ''id'') \<noteq>
      ToPropertyKey exampleEngine
        (get (Some (retainedOptions (retainedEntries surveyPayload ! 0) ! 3)) ''id'')"
  proof (intro allI impI)
    fix j' assume "3 < j' \<and> j' < length (retainedOptions (retainedEntries surveyPayload ! 0))"
    then have "3 < j' \<and> j' < 4" unfolding o by simp
    then have False by arith
    then show "ToPropertyKey exampleEngine
        (get (Some (retainedOptions (retainedEntries surveyPayload ! 0) ! j')) ''id'') \<noteq>
      ToPropertyKey exampleEngine
        (get (Some (retainedOptions (retainedEntries surveyPayload ! 0) ! 3)) ''id'')" ..
  qed
  from normalisePayload_counts [OF r i j plain last] obtain k n where
    "ToPropertyKey exampleEngine
       (get (Some (retainedOptions (retainedEntries surveyPayload ! 0) ! 3)) ''id'') = Inr k"
    "ToNumber exampleEngine
       (nullish (get (Some (retainedOptions (retainedEntries surveyPayload ! 0) ! 3)) ''count'')
          (Some (JNum (Fin 0)))) = Inr n"
    "map_of (aggregated ([surveyRecord] ! 0)) k = Some (if isFinite n then n else Fin 0)"
    by blast
  then have many: "map_of (aggregated surveyRecord) ''many'' = Some (Fin 0)"
    unfolding o by (auto simp: optionOf_def nullish_def isFinite_def)
  have rest: "map_of (aggregated surveyRecord) ''yes'' = Some (Fin 3)"
      "map_of (aggregated surveyRecord) ''maybe'' = Some (Fin 0)"
    by (simp_all add: surveyRecord_def)
  from r many rest show ?thesis
    unfolding o' by simp
qed

text \<open>
  C6, as amended. For every payload and every record that the normaliser returns,
  every value of the record's \<open>aggregated\<close> map is a finite number: never \<open>NaN\<close>, never
  an infinity.

  As stated (a non-negative integer) the claim fails: the counts \<open>-3\<close> and \<open>2.5\<close> are
  stored as they are.
\<close>

theorem normalisePayload_counts_finite:
  assumes "normalisePayload E payload = Inr qs" and "q \<in> set qs"
    and "(k, v) \<in> set (aggregated q)"
  shows "isFinite v"
proof -
  from assms(2) obtain i where i: "i < length qs" "qs ! i = q"
    by (auto simp: in_set_conv_nth)
  have "mapEntry E (retainedEntries payload ! i) = Inr q"
    using normalisePayload_nth(1) [OF assms(1) i(1)] i(2) by simp
  from aggregated_from_option [OF this assms(3)] obtain option where
    "optionWrite E option = Inr (k, v)" by blast
  from optionWrite_Inr [OF this] obtain n where "v = (if isFinite n then n else Fin 0)"
    by blast
  then show ?thesis by (simp add: isFinite_def)
qed

theorem normalisePayload_counts_finite_counterexample:
  "normalisePayload exampleEngine (payloadOf [optionOf ''a'' (Fin (- 3)), optionOf ''b'' (Fin (5 / 2))])
   = Inr [\<lparr>q_id = Some (JStr ''q''), q_label = Some (JStr ''q''),
           aggregated = [(''a'', Fin (- 3)), (''b'', Fin (5 / 2))]\<rparr>] \<and>
   \<not> isNonNegInteger (Fin (- 3)) \<and> \<not> isNonNegInteger (Fin (5 / 2))"
proof -
  have "(5 / 2 :: rat) \<notin> \<int>"
  proof
    assume "(5 / 2 :: rat) \<in> \<int>"
    then obtain z :: int where "(5 / 2 :: rat) = of_int z" by (auto elim: Ints_cases)
    then have "(5 :: rat) = of_int (2 * z)" by simp
    then have "(5 :: int) = 2 * z" by (metis of_int_eq_iff of_int_numeral)
    then show False by presburger
  qed
  then show ?thesis by (simp add: eval_defs isNonNegInteger_def)
qed

theorem normalisePayload_counts_finite_witness:
  "normalisePayload exampleEngine surveyPayload = Inr [surveyRecord] \<and>
   (''many'', Fin 0) \<in> set (aggregated surveyRecord) \<and> isFinite (Fin 0)"
proof -
  have r: "normalisePayload exampleEngine surveyPayload = Inr [surveyRecord]"
    by (simp add: eval_defs)
  have q: "surveyRecord \<in> set [surveyRecord]" by simp
  have m: "(''many'', Fin 0) \<in> set (aggregated surveyRecord)"
    by (simp add: surveyRecord_def)
  from normalisePayload_counts_finite [OF r q m] r m show ?thesis by simp
qed

end
